theory Spec2Isabelle
  imports Complex_Main "HOL-Library.Word"
begin

section \<open>Shared vocabulary\<close>

text \<open>
  Both classes call hooks supplied by the application (\<^verbatim>\<open>on_speech_start\<close>,
  \<^verbatim>\<open>on_toggle\<close>, the segment \<^verbatim>\<open>callback\<close>, ...). A hook is either unset
  (Python \<^verbatim>\<open>None\<close>, tested by \<^verbatim>\<open>if self.on_toggle:\<close>) or set; a hook that is
  set either returns or raises, and every handler of the source runs inside
  \<^verbatim>\<open>try: ... except Exception\<close>, which logs the exception and abandons the rest
  of the handler body. A hook is therefore modelled by what its call does. The same two
  outcomes describe the calls into \<^verbatim>\<open>threading\<close> and PyAudio that
  \<^verbatim>\<open>stop_recording\<close> makes outside any \<^verbatim>\<open>try\<close>.
\<close>

datatype callback = Returns | Raises

section \<open>witticism/core/hotkey\_manager.py\<close>

subsection \<open>Keys\<close>

text \<open>
  \<^verbatim>\<open>pynput.keyboard\<close> delivers either a member of the enumeration
  \<^verbatim>\<open>keyboard.Key\<close> or a \<^verbatim>\<open>keyboard.KeyCode\<close> built from a character.
  \<open>key_name\<close> lists the members the code names and some more of the enumeration;
  \<^verbatim>\<open>isinstance(key, keyboard.Key)\<close> is the constructor test.
\<close>

datatype key_name =
    Alt | Alt_l | Alt_r | Alt_gr
  | Ctrl | Ctrl_l | Ctrl_r
  | Shift | Shift_l | Shift_r
  | Cmd | Enter | Esc | Space | Tab
  | Fn nat

datatype key = Key key_name | KeyCode char

text \<open>
  Python is dynamically typed: \<^verbatim>\<open>change_ptt_key(key)\<close> stores whatever object it
  is given. The attribute \<^verbatim>\<open>ptt_key\<close> holds a key object or, when the caller
  passes a key name, a string.
\<close>

datatype pyobj = KeyObj key | StrObj string

datatype signal = PTTStart | PTTStop | Toggle

record hotkey_manager =
  current_keys :: "key set"
  on_push_to_talk_start :: "callback option"
  on_push_to_talk_stop :: "callback option"
  on_toggle :: "callback option"
  ptt_key :: pyobj
  ptt_active :: bool

definition HotkeyManager_init :: hotkey_manager where
  "HotkeyManager_init =
     \<lparr>current_keys = {},
      on_push_to_talk_start = None,
      on_push_to_talk_stop = None,
      on_toggle = None,
      ptt_key = KeyObj (Key (Fn 9)),
      ptt_active = False\<rparr>"

definition set_callbacks ::
  "hotkey_manager \<Rightarrow> callback option \<Rightarrow> callback option \<Rightarrow> callback option \<Rightarrow> hotkey_manager"
where
  "set_callbacks m start stop toggle =
     m\<lparr>on_push_to_talk_start := start, on_push_to_talk_stop := stop, on_toggle := toggle\<rparr>"

subsection \<open>Combination matching\<close>

text \<open>
  \<^verbatim>\<open>_is_combo_pressed(self, *keys)\<close>: the loop over \<open>keys\<close> returns \<open>False\<close> at the
  first key that is not held and \<open>True\<close> when it runs out. A control or alt key of the
  combination, in any of its three variants, is satisfied by any of the three variants.
\<close>

fun is_combo_pressed :: "hotkey_manager \<Rightarrow> key list \<Rightarrow> bool" where
  "is_combo_pressed m [] = True"
| "is_combo_pressed m (k # keys) =
     (case k of
        Key n \<Rightarrow>
          if k \<in> set [Key Ctrl, Key Ctrl_l, Key Ctrl_r] then
            (if \<not> list_ex (\<lambda>k'. k' \<in> current_keys m) [Key Ctrl, Key Ctrl_l, Key Ctrl_r]
             then False else is_combo_pressed m keys)
          else if k \<in> set [Key Alt, Key Alt_l, Key Alt_r] then
            (if \<not> list_ex (\<lambda>k'. k' \<in> current_keys m) [Key Alt, Key Alt_l, Key Alt_r]
             then False else is_combo_pressed m keys)
          else if k \<notin> current_keys m then False
          else is_combo_pressed m keys
      | KeyCode c \<Rightarrow>
          if k \<notin> current_keys m then False else is_combo_pressed m keys)"

text \<open>The combination \<^verbatim>\<open>_on_key_press\<close> passes: Ctrl+Alt+M.\<close>

definition toggle_combo :: "key list" where
  "toggle_combo = [Key Ctrl_l, Key Alt_l, KeyCode CHR ''m'']"

subsection \<open>The handlers\<close>

text \<open>
  A handler returns the manager after the event and the signals it emitted, that is, the
  hooks it called, in order. A hook that raises has been called: its signal is in the
  list, and the statements after the call are skipped (the \<^verbatim>\<open>except\<close> clause
  only logs).
\<close>

definition on_key_press :: "hotkey_manager \<Rightarrow> key \<Rightarrow> hotkey_manager \<times> signal list" where
  "on_key_press m k =
     (let starts = (KeyObj k = ptt_key m \<and> \<not> ptt_active m);
          m1 = (if starts then m\<lparr>ptt_active := True\<rparr> else m);
          sig1 = (if starts \<and> on_push_to_talk_start m \<noteq> None then [PTTStart] else [])
      in if starts \<and> on_push_to_talk_start m = Some Raises then (m1, sig1)
         else
           let m2 = m1\<lparr>current_keys := insert k (current_keys m1)\<rparr>
           in if is_combo_pressed m2 toggle_combo
              then (m2, sig1 @ (if on_toggle m2 \<noteq> None then [Toggle] else []))
              else (m2, sig1))"

definition on_key_release :: "hotkey_manager \<Rightarrow> key \<Rightarrow> hotkey_manager \<times> signal list" where
  "on_key_release m k =
     (let stops = (KeyObj k = ptt_key m \<and> ptt_active m);
          m1 = (if stops then m\<lparr>ptt_active := False\<rparr> else m);
          sig1 = (if stops \<and> on_push_to_talk_stop m \<noteq> None then [PTTStop] else [])
      in if stops \<and> on_push_to_talk_stop m = Some Raises then (m1, sig1)
         else (m1\<lparr>current_keys := current_keys m1 - {k}\<rparr>, sig1))"

definition change_ptt_key :: "hotkey_manager \<Rightarrow> pyobj \<Rightarrow> hotkey_manager" where
  "change_ptt_key m k = m\<lparr>ptt_key := k\<rparr>"

text \<open>The listener thread delivers a stream of events to the two handlers.\<close>

datatype key_event = Press key | Release key

fun handle_event :: "hotkey_manager \<Rightarrow> key_event \<Rightarrow> hotkey_manager \<times> signal list" where
  "handle_event m (Press k) = on_key_press m k"
| "handle_event m (Release k) = on_key_release m k"

fun handle_events :: "hotkey_manager \<Rightarrow> key_event list \<Rightarrow> hotkey_manager \<times> signal list" where
  "handle_events m [] = (m, [])"
| "handle_events m (e # es) =
     (let (m1, s1) = handle_event m e;
          (m2, s2) = handle_events m1 es
      in (m2, s1 @ s2))"

section \<open>witticism/core/audio\_capture.py\<close>

subsection \<open>Data\<close>

text \<open>
  A frame is the \<^verbatim>\<open>np.int16\<close> array that \<^verbatim>\<open>np.frombuffer\<close> makes of one chunk
  read from the stream. Durations and clock readings are Python floats, in seconds; the
  model computes with them exactly, as rationals.
\<close>

type_synonym sample = "16 word"
type_synonym frame = "sample list"

record audio_capture =
  sample_rate :: int
  channels :: int
  chunk_duration_ms :: int
  vad_aggressiveness :: int
  min_speech_duration :: rat
  max_silence_duration :: rat
  chunk_size :: int
  stream :: bool \<comment> \<open>\<open>True\<close>: a stream object; \<open>False\<close>: \<^verbatim>\<open>None\<close>\<close>
  recording_buffer :: "frame list"
  is_recording :: bool
  stop_event :: bool
  capture_thread :: bool \<comment> \<open>\<open>True\<close>: a thread object; \<open>False\<close>: \<^verbatim>\<open>None\<close>\<close>
  on_speech_start :: "callback option"
  on_speech_end :: "callback option"

text \<open>
  \<^verbatim>\<open>int(sample_rate * chunk_duration_ms / 1000)\<close>: Python's \<^verbatim>\<open>int\<close> truncates
  towards zero, HOL's \<open>div\<close> rounds down.
\<close>

definition chunk_size_of :: "int \<Rightarrow> int \<Rightarrow> int" where
  "chunk_size_of rate ms =
     (if 0 \<le> rate * ms then (rate * ms) div 1000 else - ((- (rate * ms)) div 1000))"

definition AudioCapture_init ::
  "int \<Rightarrow> int \<Rightarrow> int \<Rightarrow> int \<Rightarrow> rat \<Rightarrow> rat \<Rightarrow> audio_capture"
where
  "AudioCapture_init rate chans ms aggr min_speech max_silence =
     \<lparr>sample_rate = rate,
      channels = chans,
      chunk_duration_ms = ms,
      vad_aggressiveness = aggr,
      min_speech_duration = min_speech,
      max_silence_duration = max_silence,
      chunk_size = chunk_size_of rate ms,
      stream = False,
      recording_buffer = [],
      is_recording = False,
      stop_event = False,
      capture_thread = False,
      on_speech_start = None,
      on_speech_end = None\<rparr>"

text \<open>The constructor's default arguments.\<close>

definition AudioCapture_default :: audio_capture where
  "AudioCapture_default = AudioCapture_init 16000 1 30 2 (1 / 2) 1"

definition set_vad_callbacks ::
  "audio_capture \<Rightarrow> callback option \<Rightarrow> callback option \<Rightarrow> audio_capture"
where
  "set_vad_callbacks ac start_hook end_hook =
     ac\<lparr>on_speech_start := start_hook, on_speech_end := end_hook\<rparr>"

subsection \<open>Starting and stopping a session\<close>

datatype error = DeviceError | ThreadError | StreamError

text \<open>
  \<^verbatim>\<open>start_recording\<close>: \<open>opens\<close> says whether \<^verbatim>\<open>self.audio.open\<close> returns a
  stream; when it raises, the exception is logged and raised again, before any attribute
  is written. The capture thread it starts is \<open>capture_loop\<close> below.
\<close>

definition start_recording :: "audio_capture \<Rightarrow> bool \<Rightarrow> error + audio_capture" where
  "start_recording ac opens =
     (if is_recording ac then Inr ac
      else if \<not> opens then Inl DeviceError
      else Inr (ac\<lparr>stream := True, is_recording := True, stop_event := False,
                    recording_buffer := [], capture_thread := True\<rparr>))"

text \<open>
  \<^verbatim>\<open>stop_recording\<close> (lines 105 to 127) has no exception handler. After setting
  the stop event it calls \<^verbatim>\<open>capture_thread.join\<close> (when there is a thread), then
  \<^verbatim>\<open>stream.stop_stream\<close> and \<^verbatim>\<open>stream.close\<close> (when there is a stream), and
  only then clears \<open>stream\<close> and \<open>is_recording\<close>. \<open>join\<close> raises when the caller is the
  capture thread itself (a segment callback that stops the recording); the stream calls
  raise on a device error. The arguments \<open>join\<close>, \<open>stop_stream\<close> and \<open>close\<close> say what
  each call does if it is made. The result is the object as the call leaves it and either
  the exception that left the call (\<open>Inl\<close>) or the array returned (\<open>Inr\<close>).
\<close>

definition stop_recording ::
  "audio_capture \<Rightarrow> callback \<Rightarrow> callback \<Rightarrow> callback \<Rightarrow> audio_capture \<times> (error + frame)"
where
  "stop_recording ac join stop_stream close =
     (if \<not> is_recording ac then (ac, Inr [])
      else
        let ac1 = ac\<lparr>stop_event := True\<rparr>
        in if capture_thread ac1 \<and> join = Raises then (ac1, Inl ThreadError)
           else if stream ac1 \<and> stop_stream = Raises then (ac1, Inl StreamError)
           else if stream ac1 \<and> close = Raises then (ac1, Inl StreamError)
           else
             let ac2 = (if stream ac1 then ac1\<lparr>stream := False\<rparr> else ac1);
                 ac3 = ac2\<lparr>is_recording := False\<rparr>
             in (ac3, Inr (if recording_buffer ac3 \<noteq> [] then concat (recording_buffer ac3)
                           else [])))"

subsection \<open>The capture loop\<close>

text \<open>
  What one pass of the \<^verbatim>\<open>while\<close> loop meets: the stream is not active; or
  \<^verbatim>\<open>stream.read\<close> raises; or it returns a chunk, on which \<^verbatim>\<open>vad.is_speech\<close>
  answers or raises. Each pass comes with the reading \<^verbatim>\<open>time.time()\<close> gives during
  it (the loop reads the clock at most once in a pass).
\<close>

datatype vad_result = IsSpeech bool | VadRaises

datatype read_result = Inactive | ReadRaises | Chunk frame vad_result

type_synonym iteration = "rat \<times> read_result"

datatype event = SpeechStart | Segment frame | SpeechEnd

text \<open>
  The loop's state: the object, the four local variables, and the calls made so far to
  the hooks and to the segment callback (\<open>emitted\<close>, in order; a call that raises is a
  call made).
\<close>

record capture_state =
  self :: audio_capture
  speech_frames :: "frame list"
  silence_frames :: int
  is_speech :: bool
  speech_start_time :: "rat option"
  emitted :: "event list"

definition capture_init :: "audio_capture \<Rightarrow> capture_state" where
  "capture_init ac =
     \<lparr>self = ac, speech_frames = [], silence_frames = 0, is_speech = False,
      speech_start_time = None, emitted = []\<rparr>"

text \<open>The branch \<^verbatim>\<open>if is_speech_frame:\<close> (lines 153 to 162).\<close>

definition speech_frame :: "capture_state \<Rightarrow> rat \<Rightarrow> frame \<Rightarrow> capture_state" where
  "speech_frame st now audio_np =
     (let started = \<not> is_speech st;
          st1 = (if started then st\<lparr>is_speech := True, speech_start_time := Some now\<rparr> else st);
          st2 = (if started \<and> on_speech_start (self st) \<noteq> None
                 then st1\<lparr>emitted := emitted st1 @ [SpeechStart]\<rparr> else st1)
      in if started \<and> on_speech_start (self st) = Some Raises then st2
         else st2\<lparr>speech_frames := speech_frames st2 @ [audio_np], silence_frames := 0\<rparr>)"

text \<open>
  Lines 175 to 177: \<^verbatim>\<open>np.concatenate\<close> raises on an empty list of arrays. \<open>Inl\<close> is
  the state in which an exception leaves the pass, \<open>Inr\<close> the state in which it goes on.
\<close>

definition emit_segment :: "callback option \<Rightarrow> capture_state \<Rightarrow> capture_state + capture_state" where
  "emit_segment callback st =
     (case callback of
        None \<Rightarrow> Inr st
      | Some cb \<Rightarrow>
          if speech_frames st = [] then Inl st
          else
            let st1 = st\<lparr>emitted := emitted st @ [Segment (concat (speech_frames st))]\<rparr>
            in if cb = Raises then Inl st1 else Inr st1)"

text \<open>Lines 179 and 180.\<close>

definition notify_speech_end :: "capture_state \<Rightarrow> capture_state + capture_state" where
  "notify_speech_end st =
     (case on_speech_end (self st) of
        None \<Rightarrow> Inr st
      | Some cb \<Rightarrow>
          let st1 = st\<lparr>emitted := emitted st @ [SpeechEnd]\<rparr>
          in if cb = Raises then Inl st1 else Inr st1)"

text \<open>Lines 182 to 186.\<close>

definition reset :: "capture_state \<Rightarrow> capture_state" where
  "reset st =
     st\<lparr>is_speech := False, speech_frames := [], silence_frames := 0,
        speech_start_time := None\<rparr>"

text \<open>
  The branch \<^verbatim>\<open>else:\<close> (lines 164 to 186). Subtracting \<^verbatim>\<open>None\<close> from a float
  raises.
\<close>

definition silence_frame :: "callback option \<Rightarrow> capture_state \<Rightarrow> rat \<Rightarrow> capture_state" where
  "silence_frame callback st now =
     (if is_speech st then
        let st1 = st\<lparr>silence_frames := silence_frames st + 1\<rparr>;
            silence_duration =
              rat_of_int (silence_frames st1 * chunk_duration_ms (self st1)) / 1000
        in if silence_duration \<ge> max_silence_duration (self st1) then
             (case speech_start_time st1 of
                None \<Rightarrow> st1
              | Some t0 \<Rightarrow>
                  let speech_duration = now - t0
                  in if speech_duration \<ge> min_speech_duration (self st1) then
                       (case emit_segment callback st1 of
                          Inl st2 \<Rightarrow> st2
                        | Inr st2 \<Rightarrow>
                            (case notify_speech_end st2 of
                               Inl st3 \<Rightarrow> st3
                             | Inr st3 \<Rightarrow> reset st3))
                     else reset st1)
           else st1
      else st)"

text \<open>One pass of the loop (lines 136 to 189).\<close>

definition capture_iteration ::
  "callback option \<Rightarrow> capture_state \<Rightarrow> iteration \<Rightarrow> capture_state"
where
  "capture_iteration callback st it =
     (case it of
        (now, r) \<Rightarrow>
          if \<not> stream (self st) then st
          else
            (case r of
               Inactive \<Rightarrow> st
             | ReadRaises \<Rightarrow> st
             | Chunk audio_np vad \<Rightarrow>
                 let st1 = st\<lparr>self := (self st)
                             \<lparr>recording_buffer := recording_buffer (self st) @ [audio_np]\<rparr>\<rparr>
                 in (case vad of
                       VadRaises \<Rightarrow> st1
                     | IsSpeech is_speech_frame \<Rightarrow>
                         if is_speech_frame then speech_frame st1 now audio_np
                         else silence_frame callback st1 now)))"

text \<open>
  \<^verbatim>\<open>_capture_loop(callback)\<close>, over the passes made before the stop event is seen.
\<close>

definition capture_loop ::
  "callback option \<Rightarrow> audio_capture \<Rightarrow> iteration list \<Rightarrow> capture_state"
where
  "capture_loop callback ac its = foldl (capture_iteration callback) (capture_init ac) its"

subsection \<open>Describing a run\<close>

text \<open>The frames the stream delivered in a run, in order.\<close>

fun delivered :: "iteration list \<Rightarrow> frame list" where
  "delivered [] = []"
| "delivered ((now, Chunk audio_np vad) # its) = audio_np # delivered its"
| "delivered (it # its) = delivered its"

text \<open>Whether a pass read a frame that the classifier called speech.\<close>

fun classified_speech :: "iteration \<Rightarrow> bool" where
  "classified_speech (now, Chunk audio_np (IsSpeech b)) = b"
| "classified_speech it = False"

text \<open>Runs of frames, each with its clock reading, all speech or all non-speech.\<close>

definition speech_chunks :: "(rat \<times> frame) list \<Rightarrow> iteration list" where
  "speech_chunks tfs = map (\<lambda>(t, f). (t, Chunk f (IsSpeech True))) tfs"

definition silence_chunks :: "(rat \<times> frame) list \<Rightarrow> iteration list" where
  "silence_chunks tfs = map (\<lambda>(t, f). (t, Chunk f (IsSpeech False))) tfs"

text \<open>
  Frames read back to back from a blocking stream: one per \<open>period\<close> seconds, the first
  of the run being pass number \<open>n\<close> of the session, the session's first pass at time 0.
\<close>

definition stamped :: "rat \<Rightarrow> nat \<Rightarrow> frame list \<Rightarrow> (rat \<times> frame) list" where
  "stamped period n fs = map (\<lambda>(i, f). (rat_of_nat i * period, f)) (enumerate n fs)"

subsection \<open>Objects used in examples\<close>

text \<open>A key tracker with only the toggle hook set.\<close>

definition toggle_listener :: hotkey_manager where
  "toggle_listener = set_callbacks HotkeyManager_init None None (Some Returns)"

text \<open>A key tracker with the two push-to-talk hooks set.\<close>

definition ptt_listener :: hotkey_manager where
  "ptt_listener = set_callbacks HotkeyManager_init (Some Returns) (Some Returns) None"

text \<open>A frame of 480 samples, all zero.\<close>

definition blank_frame :: frame where
  "blank_frame = replicate 480 0"

text \<open>
  The object a successful \<^verbatim>\<open>start_recording\<close> leaves, for a capture built with the
  given thresholds (the other arguments at their defaults) and both hooks set.
\<close>

definition recording_session :: "rat \<Rightarrow> rat \<Rightarrow> audio_capture" where
  "recording_session min_speech max_silence =
     (set_vad_callbacks (AudioCapture_init 16000 1 30 2 min_speech max_silence)
        (Some Returns) (Some Returns))
     \<lparr>stream := True, is_recording := True, stop_event := False, recording_buffer := [],
      capture_thread := True\<rparr>"

section \<open>Properties of the key tracker\<close>

lemma ctrl_alt_m_pressed_iff:
  "is_combo_pressed m toggle_combo \<longleftrightarrow>
     (Key Ctrl \<in> current_keys m \<or> Key Ctrl_l \<in> current_keys m \<or> Key Ctrl_r \<in> current_keys m) \<and>
     (Key Alt \<in> current_keys m \<or> Key Alt_l \<in> current_keys m \<or> Key Alt_r \<in> current_keys m) \<and>
     KeyCode CHR ''m'' \<in> current_keys m"
  by (auto simp: toggle_combo_def)

lemma is_combo_pressed_variants:
  "is_combo_pressed (m\<lparr>current_keys := insert (Key Ctrl_l) (insert (Key Alt_l) S)\<rparr>) keys =
   is_combo_pressed (m\<lparr>current_keys := insert (Key Ctrl_r) (insert (Key Alt_r) S)\<rparr>) keys"
  by (induction keys) (auto split: key.splits)

text \<open>
  C8. Holding left-control, left-alt and \<open>m\<close> satisfies a combination exactly when holding
  right-control, right-alt and \<open>m\<close> does: \<open>is_combo_pressed\<close> gives the same answer on the
  two held-key sets, for every combination and whatever other keys \<open>S\<close> are held besides;
  and the combination of control, alt and \<open>m\<close> is satisfied by both.
\<close>

theorem combo_left_right_variants:
  "is_combo_pressed (m\<lparr>current_keys := insert (Key Ctrl_l) (insert (Key Alt_l) S)\<rparr>) keys =
   is_combo_pressed (m\<lparr>current_keys := insert (Key Ctrl_r) (insert (Key Alt_r) S)\<rparr>) keys
   \<and> is_combo_pressed (m\<lparr>current_keys := {Key Ctrl_l, Key Alt_l, KeyCode CHR ''m''}\<rparr>)
        [Key Ctrl, Key Alt, KeyCode CHR ''m'']
   \<and> is_combo_pressed (m\<lparr>current_keys := {Key Ctrl_r, Key Alt_r, KeyCode CHR ''m''}\<rparr>)
        [Key Ctrl, Key Alt, KeyCode CHR ''m'']"
  by (simp add: is_combo_pressed_variants)

theorem combo_left_right_variants_witness:
  "is_combo_pressed
     (HotkeyManager_init\<lparr>current_keys := {Key Ctrl_l, Key Alt_l, KeyCode CHR ''m''}\<rparr>) toggle_combo =
   is_combo_pressed
     (HotkeyManager_init\<lparr>current_keys := {Key Ctrl_r, Key Alt_r, KeyCode CHR ''m''}\<rparr>) toggle_combo"
  using combo_left_right_variants
    [where m = HotkeyManager_init and S = "{KeyCode CHR ''m''}" and keys = toggle_combo]
  by simp

subsection \<open>Push-to-talk\<close>

lemma handle_events_append:
  "handle_events m (es @ fs) =
     (let (m1, s1) = handle_events m es; (m2, s2) = handle_events m1 fs in (m2, s1 @ s2))"
  by (induction es arbitrary: m) (auto split: prod.splits)

lemma press_while_active:
  assumes "ptt_active m"
  shows "ptt_active (fst (on_key_press m k))" "ptt_key (fst (on_key_press m k)) = ptt_key m"
    "on_push_to_talk_stop (fst (on_key_press m k)) = on_push_to_talk_stop m"
    "PTTStart \<notin> set (snd (on_key_press m k))"
    "PTTStop \<notin> set (snd (on_key_press m k))"
  using assms by (auto simp: on_key_press_def Let_def)

lemma repeat_presses_while_active:
  "ptt_active m \<Longrightarrow>
     ptt_active (fst (handle_events m (replicate n (Press k)))) \<and>
     ptt_key (fst (handle_events m (replicate n (Press k)))) = ptt_key m \<and>
     on_push_to_talk_stop (fst (handle_events m (replicate n (Press k)))) = on_push_to_talk_stop m \<and>
     PTTStart \<notin> set (snd (handle_events m (replicate n (Press k)))) \<and>
     PTTStop \<notin> set (snd (handle_events m (replicate n (Press k))))"
proof (induction n arbitrary: m)
  case 0
  then show ?case by simp
next
  case (Suc n)
  note a = press_while_active [OF Suc.prems, of k]
  from Suc.IH [OF a(1)] a show ?case
    by (simp add: split_beta Let_def)
qed

lemma first_press:
  assumes "ptt_key m = KeyObj k" "\<not> ptt_active m" "on_push_to_talk_start m = Some cb"
  shows "ptt_active (fst (on_key_press m k))" "ptt_key (fst (on_key_press m k)) = ptt_key m"
    "on_push_to_talk_stop (fst (on_key_press m k)) = on_push_to_talk_stop m"
    "count_list (snd (on_key_press m k)) PTTStart = 1"
    "PTTStop \<notin> set (snd (on_key_press m k))"
  using assms by (auto simp: on_key_press_def Let_def)

lemma release_while_active:
  assumes "ptt_key m = KeyObj k" "ptt_active m" "on_push_to_talk_stop m = Some cb"
  shows "snd (on_key_release m k) = [PTTStop]" "\<not> ptt_active (fst (on_key_release m k))"
  using assms by (auto simp: on_key_release_def Let_def)

text \<open>
  C7. With the push-to-talk key \<open>k\<close> configured, the tracker not active and both hooks set,
  \<open>n > 0\<close> press events of \<open>k\<close> in a row (key repeat, no release between them) call the
  start hook exactly once and the stop hook not at all; the tracker is then active, and the
  release of \<open>k\<close> calls the stop hook exactly once. In any state \<open>m'\<close> of an active tracker
  whose stop hook is set, the release of its push-to-talk key emits exactly one stop signal.
\<close>

theorem ptt_edge_triggered:
  assumes "ptt_key m = KeyObj k" and "\<not> ptt_active m"
    and "on_push_to_talk_start m = Some cb" and "on_push_to_talk_stop m = Some cb'"
    and "0 < n"
  shows "count_list (snd (handle_events m (replicate n (Press k)))) PTTStart = 1 \<and>
         count_list (snd (handle_events m (replicate n (Press k)))) PTTStop = 0 \<and>
         ptt_active (fst (handle_events m (replicate n (Press k)))) \<and>
         snd (on_key_release (fst (handle_events m (replicate n (Press k)))) k) = [PTTStop] \<and>
         count_list (snd (handle_events m (replicate n (Press k) @ [Release k]))) PTTStart = 1 \<and>
         count_list (snd (handle_events m (replicate n (Press k) @ [Release k]))) PTTStop = 1 \<and>
         (ptt_key m' = KeyObj k' \<and> ptt_active m' \<and> on_push_to_talk_stop m' = Some c \<longrightarrow>
            snd (on_key_release m' k') = [PTTStop])"
proof -
  obtain j where n: "n = Suc j" using \<open>0 < n\<close> by (cases n) auto
  note a = first_press [OF assms(1-3)]
  note b = repeat_presses_while_active [OF a(1), of j k]
  let ?m1 = "fst (on_key_press m k)"
  let ?s1 = "snd (on_key_press m k)"
  let ?r = "handle_events ?m1 (replicate j (Press k))"
  have run: "handle_events m (replicate n (Press k)) = (fst ?r, ?s1 @ snd ?r)"
    by (simp add: n split_beta)
  have rel: "snd (on_key_release (fst ?r) k) = [PTTStop]"
    using release_while_active(1) [of "fst ?r" k cb'] a b assms by simp
  have c0: "count_list (snd ?r) PTTStart = 0" "count_list (snd ?r) PTTStop = 0"
    "count_list ?s1 PTTStop = 0"
    using a b by (simp_all add: count_list_0_iff)
  show ?thesis
    using a(4) b c0 rel release_while_active(1) [of m' k' c]
    by (simp add: run handle_events_append split_beta)
qed

theorem ptt_edge_triggered_witness:
  "count_list (snd (handle_events ptt_listener (replicate 5 (Press (Key (Fn 9)))))) PTTStart = 1 \<and>
   count_list (snd (handle_events ptt_listener
      (replicate 5 (Press (Key (Fn 9))) @ [Release (Key (Fn 9))]))) PTTStop = 1"
  using ptt_edge_triggered [where m = ptt_listener and k = "Key (Fn 9)" and n = 5
      and cb = Returns and cb' = Returns]
  by (simp add: ptt_listener_def set_callbacks_def HotkeyManager_init_def)

subsection \<open>The toggle combination\<close>

text \<open>
  C2, as stated, fails: the tracker keeps no record that the combination was already
  satisfied. After control, alt and \<open>m\<close> have been pressed (one toggle signal), the
  combination is fully held, and the press of a further key \<open>x\<close> calls the toggle hook again.
\<close>

theorem toggle_refires_while_held:
  "handle_events toggle_listener
      [Press (Key Ctrl_l), Press (Key Alt_l), Press (KeyCode CHR ''m'')] =
     (toggle_listener\<lparr>current_keys := {KeyCode CHR ''m'', Key Alt_l, Key Ctrl_l}\<rparr>, [Toggle]) \<and>
   is_combo_pressed
     (toggle_listener\<lparr>current_keys := {KeyCode CHR ''m'', Key Alt_l, Key Ctrl_l}\<rparr>) toggle_combo \<and>
   snd (on_key_press
     (toggle_listener\<lparr>current_keys := {KeyCode CHR ''m'', Key Alt_l, Key Ctrl_l}\<rparr>)
     (KeyCode CHR ''x'')) = [Toggle]"
  by (simp add: toggle_listener_def set_callbacks_def HotkeyManager_init_def on_key_press_def
      ctrl_alt_m_pressed_iff Let_def)

text \<open>
  C2, amended: the toggle signal is level-triggered. With the toggle hook set (and the
  handler not cut short by a push-to-talk start hook that raises), a press event emits a
  toggle signal exactly when all keys of the combination are held once the pressed key
  has joined the held keys; so while the combination stays fully held, every further press
  of any key emits it again. A release event never emits it.
\<close>

theorem toggle_level_triggered:
  assumes "on_toggle m = Some cb"
    and "\<not> (KeyObj k = ptt_key m \<and> \<not> ptt_active m \<and> on_push_to_talk_start m = Some Raises)"
  shows "(Toggle \<in> set (snd (on_key_press m k)) \<longleftrightarrow>
            is_combo_pressed (m\<lparr>current_keys := insert k (current_keys m)\<rparr>) toggle_combo) \<and>
         (is_combo_pressed m toggle_combo \<longrightarrow> Toggle \<in> set (snd (on_key_press m k))) \<and>
         Toggle \<notin> set (snd (on_key_release m k))"
  using assms
  by (auto simp: on_key_press_def on_key_release_def Let_def ctrl_alt_m_pressed_iff)

theorem toggle_level_triggered_witness:
  "on_toggle (toggle_listener\<lparr>current_keys := {KeyCode CHR ''m'', Key Alt_l, Key Ctrl_l}\<rparr>) =
     Some Returns \<and>
   is_combo_pressed
     (toggle_listener\<lparr>current_keys := {KeyCode CHR ''m'', Key Alt_l, Key Ctrl_l}\<rparr>) toggle_combo \<and>
   Toggle \<in> set (snd (on_key_press
     (toggle_listener\<lparr>current_keys := {KeyCode CHR ''m'', Key Alt_l, Key Ctrl_l}\<rparr>)
     (KeyCode CHR ''x''))) \<and>
   Toggle \<notin> set (snd (on_key_release
     (toggle_listener\<lparr>current_keys := {KeyCode CHR ''m'', Key Alt_l, Key Ctrl_l}\<rparr>)
     (KeyCode CHR ''x'')))"
  using toggle_level_triggered
    [where m = "toggle_listener\<lparr>current_keys := {KeyCode CHR ''m'', Key Alt_l, Key Ctrl_l}\<rparr>"
      and k = "KeyCode CHR ''x''" and cb = Returns]
  by (simp add: toggle_listener_def set_callbacks_def HotkeyManager_init_def
      ctrl_alt_m_pressed_iff)

subsection \<open>Changing the push-to-talk key\<close>

text \<open>
  C3. \<^verbatim>\<open>change_ptt_key\<close> stores its argument whatever it is and returns nothing. Given
  the string \<^verbatim>\<open>"InvalidKey123"\<close> it does not fall back to the default key F9: the
  attribute holds the string, and from then on no press event starts push-to-talk, since
  no key object equals a string.
\<close>

theorem change_ptt_key_stores_its_argument:
  "ptt_key (change_ptt_key m obj) = obj \<and>
   ptt_key (change_ptt_key HotkeyManager_init (StrObj ''InvalidKey123'')) =
     StrObj ''InvalidKey123'' \<and>
   ptt_key (change_ptt_key HotkeyManager_init (StrObj ''InvalidKey123'')) \<noteq>
     ptt_key HotkeyManager_init \<and>
   PTTStart \<notin> set (snd (on_key_press (change_ptt_key m (StrObj name)) k))"
  by (simp add: change_ptt_key_def HotkeyManager_init_def on_key_press_def Let_def)

section \<open>Properties of the capture controller\<close>

subsection \<open>The recording buffer\<close>

lemma self_reset [simp]: "self (reset st) = self st"
  by (simp add: reset_def)

lemma self_speech_frame [simp]: "self (speech_frame st now f) = self st"
  by (simp add: speech_frame_def Let_def)

lemma self_emit_segment:
  "emit_segment cb st = Inl st' \<Longrightarrow> self st' = self st"
  "emit_segment cb st = Inr st' \<Longrightarrow> self st' = self st"
  by (auto simp: emit_segment_def Let_def split: option.splits if_splits)

lemma self_notify_speech_end:
  "notify_speech_end st = Inl st' \<Longrightarrow> self st' = self st"
  "notify_speech_end st = Inr st' \<Longrightarrow> self st' = self st"
  by (auto simp: notify_speech_end_def Let_def split: option.splits if_splits)

lemma self_silence_frame [simp]: "self (silence_frame cb st now) = self st"
  by (auto simp: silence_frame_def Let_def self_emit_segment self_notify_speech_end
      split: option.splits sum.splits)

lemma delivered_Cons: "delivered (it # its) = delivered [it] @ delivered its"
proof (cases it)
  case (Pair now r)
  then show ?thesis by (cases r) simp_all
qed

lemma self_capture_iteration:
  "self (capture_iteration cb st it) =
     (self st)\<lparr>recording_buffer :=
        recording_buffer (self st) @ (if stream (self st) then delivered [it] else [])\<rparr>"
  by (cases it) (auto simp: capture_iteration_def Let_def split: read_result.splits vad_result.splits)

lemma self_foldl_capture_iteration:
  "self (foldl (capture_iteration cb) st its) =
     (self st)\<lparr>recording_buffer :=
        recording_buffer (self st) @ (if stream (self st) then delivered its else [])\<rparr>"
proof (induction its arbitrary: st)
  case Nil
  then show ?case by simp
next
  case (Cons it its)
  show ?case
    by (simp add: Cons.IH self_capture_iteration delivered_Cons [of it its] del: delivered.simps)
qed

lemma length_concat_uniform:
  "\<forall>f \<in> set fs. int (length f) = c \<Longrightarrow> int (length (concat fs)) = int (length fs) * c"
  by (induction fs) (auto simp: algebra_simps)

text \<open>
  C5. In a session started from idle, the recording buffer after the loop holds every
  frame the stream delivered, in order, whatever the classifier said of it (and also when
  the classifier raised). So when every delivered frame has \<open>chunk_size\<close> samples, the
  buffer holds as many samples as frames delivered times \<open>chunk_size\<close>, and so does the
  array \<^verbatim>\<open>stop_recording\<close> returns: it returns when its calls return, and whenever
  it returns it returns the frames delivered, concatenated.
\<close>

theorem recording_buffer_keeps_every_frame:
  assumes "\<not> is_recording ac"
    and "start_recording ac True = Inr session"
    and "\<forall>f \<in> set (delivered its). int (length f) = chunk_size ac"
  shows "recording_buffer (self (capture_loop callback session its)) = delivered its \<and>
         int (length (concat (recording_buffer (self (capture_loop callback session its))))) =
           int (length (delivered its)) * chunk_size ac \<and>
         snd (stop_recording (self (capture_loop callback session its)) Returns Returns Returns) =
           Inr (concat (delivered its)) \<and>
         (snd (stop_recording (self (capture_loop callback session its)) join stop_stream close) =
            Inr audio \<longrightarrow>
            audio = concat (delivered its) \<and>
            int (length audio) = int (length (delivered its)) * chunk_size ac)"
proof -
  have s: "session = ac\<lparr>stream := True, is_recording := True, stop_event := False,
                        recording_buffer := [], capture_thread := True\<rparr>"
    using assms(1,2) by (simp add: start_recording_def)
  have buf: "self (capture_loop callback session its) = session\<lparr>recording_buffer := delivered its\<rparr>"
    by (simp add: capture_loop_def capture_init_def self_foldl_capture_iteration s)
  have returns: "snd (stop_recording (session\<lparr>recording_buffer := delivered its\<rparr>)
      Returns Returns Returns) = Inr (concat (delivered its))"
    by (simp add: stop_recording_def s Let_def)
  have any: "snd (stop_recording (session\<lparr>recording_buffer := delivered its\<rparr>)
      join stop_stream close) = Inr audio \<Longrightarrow> audio = concat (delivered its)"
    by (auto simp: stop_recording_def s Let_def split: if_splits)
  show ?thesis
    using length_concat_uniform [OF assms(3)] any unfolding buf returns by auto
qed

theorem recording_buffer_keeps_every_frame_witness:
  "start_recording AudioCapture_default True =
     Inr (recording_session (1 / 2) 1\<lparr>on_speech_start := None, on_speech_end := None\<rparr>) \<and>
   int (length (concat (recording_buffer (self (capture_loop None
     (recording_session (1 / 2) 1\<lparr>on_speech_start := None, on_speech_end := None\<rparr>)
     [(0, Chunk blank_frame (IsSpeech True)), (3 / 100, ReadRaises),
      (6 / 100, Chunk blank_frame (IsSpeech False)),
      (9 / 100, Chunk blank_frame VadRaises)]))))) = 3 * 480 \<and>
   snd (stop_recording (self (capture_loop None
     (recording_session (1 / 2) 1\<lparr>on_speech_start := None, on_speech_end := None\<rparr>)
     [(0, Chunk blank_frame (IsSpeech True)), (3 / 100, ReadRaises),
      (6 / 100, Chunk blank_frame (IsSpeech False)),
      (9 / 100, Chunk blank_frame VadRaises)])) Returns Returns Returns) =
     Inr (blank_frame @ blank_frame @ blank_frame)"
  using recording_buffer_keeps_every_frame
    [where ac = AudioCapture_default
      and session = "recording_session (1 / 2) 1\<lparr>on_speech_start := None, on_speech_end := None\<rparr>"
      and callback = None
      and its = "[(0, Chunk blank_frame (IsSpeech True)), (3 / 100, ReadRaises),
      (6 / 100, Chunk blank_frame (IsSpeech False)),
      (9 / 100, Chunk blank_frame VadRaises)]"]
  by (simp add: AudioCapture_default_def AudioCapture_init_def recording_session_def
      set_vad_callbacks_def start_recording_def chunk_size_of_def blank_frame_def)

subsection \<open>Stopping\<close>




section \<open>Properties of the segmentation engine\<close>

subsection \<open>Single passes and runs of equal frames\<close>

lemma speech_chunk_first:
  assumes "stream (self st)" "\<not> is_speech st" "on_speech_start (self st) = Some Returns"
  shows "capture_iteration cb st (t, Chunk f (IsSpeech True)) =
     st\<lparr>self := (self st)\<lparr>recording_buffer := recording_buffer (self st) @ [f]\<rparr>,
        is_speech := True, speech_start_time := Some t,
        emitted := emitted st @ [SpeechStart],
        speech_frames := speech_frames st @ [f], silence_frames := 0\<rparr>"
  using assms by (simp add: capture_iteration_def speech_frame_def Let_def)

lemma speech_chunk_next:
  assumes "stream (self st)" "is_speech st"
  shows "capture_iteration cb st (t, Chunk f (IsSpeech True)) =
     st\<lparr>self := (self st)\<lparr>recording_buffer := recording_buffer (self st) @ [f]\<rparr>,
        speech_frames := speech_frames st @ [f], silence_frames := 0\<rparr>"
  using assms by (simp add: capture_iteration_def speech_frame_def Let_def)

lemma speech_chunks_next:
  assumes "stream (self st)" "is_speech st" "silence_frames st = 0"
  shows "foldl (capture_iteration cb) st (speech_chunks tfs) =
     st\<lparr>self := (self st)\<lparr>recording_buffer := recording_buffer (self st) @ map snd tfs\<rparr>,
        speech_frames := speech_frames st @ map snd tfs\<rparr>"
  using assms
proof (induction tfs arbitrary: st)
  case Nil
  then show ?case by (simp add: speech_chunks_def)
next
  case (Cons tf tfs)
  obtain t f where tf: "tf = (t, f)" by (cases tf)
  define st1 where "st1 = capture_iteration cb st (t, Chunk f (IsSpeech True))"
  have st1: "st1 = st\<lparr>self := (self st)\<lparr>recording_buffer := recording_buffer (self st) @ [f]\<rparr>,
        speech_frames := speech_frames st @ [f], silence_frames := 0\<rparr>"
    unfolding st1_def by (rule speech_chunk_next) (use Cons.prems in auto)
  have "foldl (capture_iteration cb) st1 (speech_chunks tfs) =
     st1\<lparr>self := (self st1)\<lparr>recording_buffer := recording_buffer (self st1) @ map snd tfs\<rparr>,
        speech_frames := speech_frames st1 @ map snd tfs\<rparr>"
    by (rule Cons.IH) (use Cons.prems in \<open>simp_all add: st1\<close>)
  moreover have "foldl (capture_iteration cb) st (speech_chunks (tf # tfs)) =
      foldl (capture_iteration cb) st1 (speech_chunks tfs)"
    by (simp add: speech_chunks_def tf st1_def)
  ultimately show ?case
    by (simp add: st1 tf) (cases st, use Cons.prems(3) in simp)
qed

lemma silence_chunk_below:
  assumes "stream (self st)" "is_speech st"
    and "rat_of_int ((silence_frames st + 1) * chunk_duration_ms (self st)) / 1000
           < max_silence_duration (self st)"
  shows "capture_iteration cb st (t, Chunk f (IsSpeech False)) =
     st\<lparr>self := (self st)\<lparr>recording_buffer := recording_buffer (self st) @ [f]\<rparr>,
        silence_frames := silence_frames st + 1\<rparr>"
  using assms by (simp add: capture_iteration_def silence_frame_def Let_def)

lemma silence_chunks_below:
  assumes "stream (self st)" "is_speech st" "0 \<le> chunk_duration_ms (self st)"
    and "rat_of_int ((silence_frames st + int (length tfs)) * chunk_duration_ms (self st)) / 1000
           < max_silence_duration (self st)"
  shows "foldl (capture_iteration cb) st (silence_chunks tfs) =
     st\<lparr>self := (self st)\<lparr>recording_buffer := recording_buffer (self st) @ map snd tfs\<rparr>,
        silence_frames := silence_frames st + int (length tfs)\<rparr>"
  using assms
proof (induction tfs arbitrary: st)
  case Nil
  then show ?case by (simp add: silence_chunks_def)
next
  case (Cons tf tfs)
  obtain t f where tf: "tf = (t, f)" by (cases tf)
  let ?c = "chunk_duration_ms (self st)"
  define st1 where "st1 = capture_iteration cb st (t, Chunk f (IsSpeech False))"
  have "(silence_frames st + 1) * ?c \<le> (silence_frames st + int (length (tf # tfs))) * ?c"
    using Cons.prems(3) by (intro mult_right_mono) auto
  then have "rat_of_int ((silence_frames st + 1) * ?c)
      \<le> rat_of_int ((silence_frames st + int (length (tf # tfs))) * ?c)"
    by (simp only: of_int_le_iff)
  then have "rat_of_int ((silence_frames st + 1) * ?c) / 1000
      \<le> rat_of_int ((silence_frames st + int (length (tf # tfs))) * ?c) / 1000"
    by (rule divide_right_mono) simp
  with Cons.prems(4) have below: "rat_of_int ((silence_frames st + 1) * ?c) / 1000
      < max_silence_duration (self st)"
    by linarith
  have st1: "st1 = st\<lparr>self := (self st)\<lparr>recording_buffer := recording_buffer (self st) @ [f]\<rparr>,
        silence_frames := silence_frames st + 1\<rparr>"
    unfolding st1_def by (rule silence_chunk_below) (use Cons.prems below in auto)
  have "foldl (capture_iteration cb) st1 (silence_chunks tfs) =
     st1\<lparr>self := (self st1)\<lparr>recording_buffer := recording_buffer (self st1) @ map snd tfs\<rparr>,
        silence_frames := silence_frames st1 + int (length tfs)\<rparr>"
    by (rule Cons.IH) (use Cons.prems in \<open>simp_all add: st1 add.assoc\<close>)
  moreover have "foldl (capture_iteration cb) st (silence_chunks (tf # tfs)) =
      foldl (capture_iteration cb) st1 (silence_chunks tfs)"
    by (simp add: silence_chunks_def tf st1_def)
  ultimately show ?case
    by (simp add: st1 tf add.assoc)
qed

lemma silence_chunk_emits:
  assumes "stream (self st)" "is_speech st" "speech_start_time st = Some t0"
    and "speech_frames st \<noteq> []"
    and "max_silence_duration (self st)
           \<le> rat_of_int ((silence_frames st + 1) * chunk_duration_ms (self st)) / 1000"
    and "min_speech_duration (self st) \<le> t - t0"
    and "on_speech_end (self st) = Some Returns"
  shows "capture_iteration (Some Returns) st (t, Chunk f (IsSpeech False)) =
     st\<lparr>self := (self st)\<lparr>recording_buffer := recording_buffer (self st) @ [f]\<rparr>,
        emitted := emitted st @ [Segment (concat (speech_frames st)), SpeechEnd],
        is_speech := False, speech_frames := [], silence_frames := 0,
        speech_start_time := None\<rparr>"
  using assms
  by (simp add: capture_iteration_def silence_frame_def emit_segment_def notify_speech_end_def
      reset_def Let_def)

lemma silence_chunk_discards:
  assumes "stream (self st)" "is_speech st" "speech_start_time st = Some t0"
    and "max_silence_duration (self st)
           \<le> rat_of_int ((silence_frames st + 1) * chunk_duration_ms (self st)) / 1000"
    and "t - t0 < min_speech_duration (self st)"
  shows "capture_iteration cb st (t, Chunk f (IsSpeech False)) =
     st\<lparr>self := (self st)\<lparr>recording_buffer := recording_buffer (self st) @ [f]\<rparr>,
        is_speech := False, speech_frames := [], silence_frames := 0,
        speech_start_time := None\<rparr>"
  using assms
  by (simp add: capture_iteration_def silence_frame_def reset_def Let_def)

lemma iteration_without_speech:
  assumes "\<not> is_speech st" "\<not> classified_speech it"
  shows "capture_iteration cb st it =
     st\<lparr>self := (self st)\<lparr>recording_buffer :=
        recording_buffer (self st) @ (if stream (self st) then delivered [it] else [])\<rparr>\<rparr>"
proof (cases it)
  case (Pair now r)
  show ?thesis
  proof (cases r)
    case (Chunk f v)
    with Pair assms show ?thesis
      by (cases v) (simp_all add: capture_iteration_def silence_frame_def)
  qed (simp_all add: Pair capture_iteration_def)
qed

lemma loop_without_speech:
  assumes "\<not> is_speech st" "\<forall>it \<in> set its. \<not> classified_speech it"
  shows "foldl (capture_iteration cb) st its =
     st\<lparr>self := (self st)\<lparr>recording_buffer :=
        recording_buffer (self st) @ (if stream (self st) then delivered its else [])\<rparr>\<rparr>"
  using assms
proof (induction its arbitrary: st)
  case Nil
  then show ?case by simp
next
  case (Cons it its)
  define st1 where "st1 = capture_iteration cb st it"
  have st1: "st1 = st\<lparr>self := (self st)\<lparr>recording_buffer :=
        recording_buffer (self st) @ (if stream (self st) then delivered [it] else [])\<rparr>\<rparr>"
    unfolding st1_def by (rule iteration_without_speech) (use Cons.prems in auto)
  have "foldl (capture_iteration cb) st1 its =
     st1\<lparr>self := (self st1)\<lparr>recording_buffer :=
        recording_buffer (self st1) @ (if stream (self st1) then delivered its else [])\<rparr>\<rparr>"
    by (rule Cons.IH) (use Cons.prems in \<open>simp_all add: st1\<close>)
  moreover have "foldl (capture_iteration cb) st (it # its) = foldl (capture_iteration cb) st1 its"
    by (simp add: st1_def)
  ultimately show ?case
    by (simp add: st1 delivered_Cons [of it its] del: delivered.simps)
qed

lemma emitted_after_silence_chunks:
  "\<not> is_speech st \<Longrightarrow> emitted (foldl (capture_iteration cb) st (silence_chunks tfs)) = emitted st"
  by (subst loop_without_speech) (auto simp: silence_chunks_def)

subsection \<open>A speech run followed by silence\<close>

text \<open>
  A run of speech frames followed by \<open>k\<close> non-speech frames, \<open>k\<close> of them not yet reaching
  \<open>max_silence_duration\<close>: the loop is in the speech state, holding the speech frames.
\<close>

lemma speech_run_pending:
  assumes ac: "stream ac" "0 \<le> chunk_duration_ms ac"
    and hook: "on_speech_start ac = Some Returns"
    and below: "rat_of_int (int (length si) * chunk_duration_ms ac) / 1000 < max_silence_duration ac"
    and sp: "sp \<noteq> []"
  shows "foldl (capture_iteration cb) (capture_init ac) (speech_chunks sp @ silence_chunks si) =
     (capture_init ac)
       \<lparr>self := ac\<lparr>recording_buffer := recording_buffer ac @ map snd sp @ map snd si\<rparr>,
        is_speech := True, speech_start_time := Some (fst (hd sp)),
        emitted := [SpeechStart], speech_frames := map snd sp,
        silence_frames := int (length si)\<rparr>"
proof -
  let ?step = "capture_iteration cb"
  obtain t0 f0 sp' where sp': "sp = (t0, f0) # sp'"
    using sp by (cases sp) auto
  define st1 where "st1 = ?step (capture_init ac) (t0, Chunk f0 (IsSpeech True))"
  have st1: "st1 = (capture_init ac)\<lparr>self := ac\<lparr>recording_buffer := recording_buffer ac @ [f0]\<rparr>,
        is_speech := True, speech_start_time := Some t0,
        emitted := [SpeechStart], speech_frames := [f0], silence_frames := 0\<rparr>"
    unfolding st1_def
    using speech_chunk_first [of "capture_init ac" cb t0 f0] ac hook
    by (simp add: capture_init_def)
  define st2 where "st2 = foldl ?step st1 (speech_chunks sp')"
  have st2: "st2 = st1\<lparr>self := (self st1)\<lparr>recording_buffer :=
        recording_buffer (self st1) @ map snd sp'\<rparr>,
        speech_frames := speech_frames st1 @ map snd sp'\<rparr>"
    unfolding st2_def by (rule speech_chunks_next) (simp_all add: st1 ac)
  define st3 where "st3 = foldl ?step st2 (silence_chunks si)"
  have st3: "st3 = st2\<lparr>self := (self st2)\<lparr>recording_buffer :=
        recording_buffer (self st2) @ map snd si\<rparr>,
        silence_frames := silence_frames st2 + int (length si)\<rparr>"
    unfolding st3_def
    by (rule silence_chunks_below) (use ac below in \<open>simp_all add: st2 st1\<close>)
  have "foldl ?step (capture_init ac) (speech_chunks sp @ silence_chunks si) = st3"
    unfolding st3_def st2_def st1_def by (simp add: sp' speech_chunks_def)
  then show ?thesis
    by (simp add: st3 st2 st1 sp' capture_init_def)
qed

lemma speech_run_then_silence:
  assumes ac: "stream ac" "0 \<le> chunk_duration_ms ac"
    and hooks: "on_speech_start ac = Some Returns" "on_speech_end ac = Some Returns"
    and below: "rat_of_int (int k * chunk_duration_ms ac) / 1000 < max_silence_duration ac"
    and reached: "max_silence_duration ac \<le> rat_of_int ((int k + 1) * chunk_duration_ms ac) / 1000"
    and sp: "sp \<noteq> []" and si: "k < length si"
    and long: "min_speech_duration ac \<le> fst (si ! k) - fst (hd sp)"
  shows "emitted (capture_loop (Some Returns) ac (speech_chunks sp @ silence_chunks si)) =
     [SpeechStart, Segment (concat (map snd sp)), SpeechEnd]"
proof -
  let ?step = "capture_iteration (Some Returns)"
  obtain t f where tf: "si ! k = (t, f)" by (cases "si ! k")
  have split: "si = take k si @ (t, f) # drop (Suc k) si"
    using id_take_nth_drop [OF si] tf by simp
  have len: "length (take k si) = k" using si by simp
  have pend: "rat_of_int (int (length (take k si)) * chunk_duration_ms ac) / 1000
      < max_silence_duration ac"
    using below by (simp only: len)
  define st3 where "st3 = foldl ?step (capture_init ac) (speech_chunks sp @ silence_chunks (take k si))"
  have st3: "st3 = (capture_init ac)
       \<lparr>self := ac\<lparr>recording_buffer := recording_buffer ac @ map snd sp @ map snd (take k si)\<rparr>,
        is_speech := True, speech_start_time := Some (fst (hd sp)),
        emitted := [SpeechStart], speech_frames := map snd sp,
        silence_frames := int k\<rparr>"
    unfolding st3_def
    using speech_run_pending [OF ac hooks(1) pend sp, of "Some Returns"] unfolding len .
  define st4 where "st4 = ?step st3 (t, Chunk f (IsSpeech False))"
  have "st4 = st3\<lparr>self := (self st3)\<lparr>recording_buffer := recording_buffer (self st3) @ [f]\<rparr>,
        emitted := emitted st3 @ [Segment (concat (speech_frames st3)), SpeechEnd],
        is_speech := False, speech_frames := [], silence_frames := 0,
        speech_start_time := None\<rparr>"
    unfolding st4_def
    by (rule silence_chunk_emits [where ?t0.0 = "fst (hd sp)"])
      (use ac hooks reached sp long tf in \<open>simp_all add: st3\<close>)
  then have st4: "emitted st4 = [SpeechStart, Segment (concat (map snd sp)), SpeechEnd]"
    "\<not> is_speech st4"
    by (simp_all add: st3)
  have run: "capture_loop (Some Returns) ac (speech_chunks sp @ silence_chunks si) =
      foldl ?step st4 (silence_chunks (drop (Suc k) si))"
    unfolding st4_def st3_def
    by (subst split) (simp add: capture_loop_def silence_chunks_def)
  have "emitted (foldl ?step st4 (silence_chunks (drop (Suc k) si))) = emitted st4"
    by (rule emitted_after_silence_chunks) (rule st4(2))
  then show ?thesis
    unfolding run st4(1) .
qed

lemma speech_run_discarded:
  assumes ac: "stream ac" "0 \<le> chunk_duration_ms ac"
    and hook: "on_speech_start ac = Some Returns"
    and below: "rat_of_int (int k * chunk_duration_ms ac) / 1000 < max_silence_duration ac"
    and reached: "max_silence_duration ac \<le> rat_of_int ((int k + 1) * chunk_duration_ms ac) / 1000"
    and sp: "sp \<noteq> []" and si: "k < length si"
    and short: "fst (si ! k) - fst (hd sp) < min_speech_duration ac"
  shows "emitted (capture_loop cb ac (speech_chunks sp @ silence_chunks si)) = [SpeechStart]"
proof -
  let ?step = "capture_iteration cb"
  obtain t f where tf: "si ! k = (t, f)" by (cases "si ! k")
  have split: "si = take k si @ (t, f) # drop (Suc k) si"
    using id_take_nth_drop [OF si] tf by simp
  have len: "length (take k si) = k" using si by simp
  have pend: "rat_of_int (int (length (take k si)) * chunk_duration_ms ac) / 1000
      < max_silence_duration ac"
    using below by (simp only: len)
  define st3 where "st3 = foldl ?step (capture_init ac) (speech_chunks sp @ silence_chunks (take k si))"
  have st3: "st3 = (capture_init ac)
       \<lparr>self := ac\<lparr>recording_buffer := recording_buffer ac @ map snd sp @ map snd (take k si)\<rparr>,
        is_speech := True, speech_start_time := Some (fst (hd sp)),
        emitted := [SpeechStart], speech_frames := map snd sp,
        silence_frames := int k\<rparr>"
    unfolding st3_def
    using speech_run_pending [OF ac hook pend sp, of cb] unfolding len .
  define st4 where "st4 = ?step st3 (t, Chunk f (IsSpeech False))"
  have "st4 = st3\<lparr>self := (self st3)\<lparr>recording_buffer := recording_buffer (self st3) @ [f]\<rparr>,
        is_speech := False, speech_frames := [], silence_frames := 0,
        speech_start_time := None\<rparr>"
    unfolding st4_def
    by (rule silence_chunk_discards [where ?t0.0 = "fst (hd sp)"])
      (use ac reached short tf in \<open>simp_all add: st3\<close>)
  then have st4: "emitted st4 = [SpeechStart]" "\<not> is_speech st4"
    by (simp_all add: st3)
  have run: "capture_loop cb ac (speech_chunks sp @ silence_chunks si) =
      foldl ?step st4 (silence_chunks (drop (Suc k) si))"
    unfolding st4_def st3_def
    by (subst split) (simp add: capture_loop_def silence_chunks_def)
  have "emitted (foldl ?step st4 (silence_chunks (drop (Suc k) si))) = emitted st4"
    by (rule emitted_after_silence_chunks) (rule st4(2))
  then show ?thesis
    unfolding run st4(1) .
qed

subsection \<open>Frames stamped by the clock\<close>

lemma length_stamped [simp]: "length (stamped p n fs) = length fs"
  by (simp add: stamped_def)

lemma stamped_eq_Nil [simp]: "stamped p n fs = [] \<longleftrightarrow> fs = []"
  by (cases fs) (simp_all add: stamped_def)

lemma map_snd_stamped [simp]: "map snd (stamped p n fs) = fs"
  by (simp add: stamped_def enumerate_eq_zip map_snd_zip_take case_prod_unfold comp_def)

lemma nth_stamped:
  "k < length fs \<Longrightarrow> stamped p n fs ! k = (rat_of_nat (n + k) * p, fs ! k)"
  by (simp add: stamped_def nth_enumerate_eq)

lemma hd_stamped: "fs \<noteq> [] \<Longrightarrow> hd (stamped p n fs) = (rat_of_nat n * p, hd fs)"
  by (cases fs) (simp_all add: stamped_def)

lemma recording_session_fields:
  "stream (recording_session a b)" "chunk_duration_ms (recording_session a b) = 30"
  "on_speech_start (recording_session a b) = Some Returns"
  "on_speech_end (recording_session a b) = Some Returns"
  "min_speech_duration (recording_session a b) = a"
  "max_silence_duration (recording_session a b) = b"
  "chunk_size (recording_session a b) = 480"
  "sample_rate (recording_session a b) = 16000"
  by (simp_all add: recording_session_def set_vad_callbacks_def AudioCapture_init_def
      chunk_size_of_def)

lemma start_recording_session:
  "start_recording
     (set_vad_callbacks (AudioCapture_init 16000 1 30 2 a b) (Some Returns) (Some Returns)) True =
   Inr (recording_session a b)"
  by (simp add: start_recording_def recording_session_def set_vad_callbacks_def
      AudioCapture_init_def)


subsection \<open>No speech\<close>

text \<open>
  C9. When no pass of the loop reads a frame classified as speech, the loop calls neither
  the segment callback nor any hook: nothing is emitted, in particular no segment. This
  holds for every object, callback and sequence of passes, including passes whose read or
  classification raises.
\<close>

theorem no_speech_no_segment:
  assumes "\<forall>it \<in> set its. \<not> classified_speech it"
  shows "emitted (capture_loop callback ac its) = [] \<and>
         (\<forall>seg. Segment seg \<notin> set (emitted (capture_loop callback ac its)))"
  using loop_without_speech [OF _ assms, of "capture_init ac" callback]
  by (simp add: capture_loop_def capture_init_def)

theorem no_speech_no_segment_witness:
  "emitted (capture_loop (Some Returns) (recording_session (1 / 2) 1)
     [(0, Chunk blank_frame (IsSpeech False)), (3 / 100, ReadRaises),
      (6 / 100, Chunk blank_frame VadRaises), (9 / 100, Inactive),
      (12 / 100, Chunk blank_frame (IsSpeech False))]) = []"
  using no_speech_no_segment
    [where its = "[(0, Chunk blank_frame (IsSpeech False)), (3 / 100, ReadRaises),
      (6 / 100, Chunk blank_frame VadRaises), (9 / 100, Inactive),
      (12 / 100, Chunk blank_frame (IsSpeech False))]"
      and callback = "Some Returns" and ac = "recording_session (1 / 2) 1"]
  by simp

subsection \<open>The two scenarios\<close>

text \<open>
  C4. A capture built with \<open>sample_rate = 16000\<close>, \<open>chunk_duration_ms = 30\<close>,
  \<open>min_speech_duration = 0.5\<close> and \<open>max_silence_duration = 1.0\<close> has a frame of 480
  samples. With the hooks and the segment callback set, 20 speech frames of 480 samples
  followed by 40 non-speech frames make the loop call the speech-start hook once, then
  the callback once, with the 20 speech frames concatenated (9600 samples, none of the
  silence), then the speech-end hook once, and nothing else. The loop measures the
  speech by the clock: the hypothesis on the clock is that at least 0.5 s pass between
  the first speech frame and the 34th non-speech frame (\<open>si ! 33\<close>), the one at which the
  silence count reaches 1.0 s. Frames read back to back from a blocking stream are 53
  frame periods, 1.59 s, apart.
\<close>

theorem speech_run_emits_one_segment:
  assumes "start_recording
      (set_vad_callbacks (AudioCapture_init 16000 1 30 2 (1 / 2) 1) (Some Returns) (Some Returns))
      True = Inr session"
    and "length sp = 20" and "length si = 40"
    and "\<forall>tf \<in> set sp. length (snd tf) = 480"
    and "1 / 2 \<le> fst (si ! 33) - fst (hd sp)"
  shows "chunk_size session = 480 \<and>
         emitted (capture_loop (Some Returns) session (speech_chunks sp @ silence_chunks si)) =
           [SpeechStart, Segment (concat (map snd sp)), SpeechEnd] \<and>
         length (concat (map snd sp)) = 9600"
proof -
  have s: "session = recording_session (1 / 2) 1"
    using assms(1) by (simp add: start_recording_session)
  have "sp \<noteq> []" "33 < length si"
    using assms(2,3) by auto
  then have run: "emitted (capture_loop (Some Returns) session
      (speech_chunks sp @ silence_chunks si)) =
      [SpeechStart, Segment (concat (map snd sp)), SpeechEnd]"
    unfolding s using assms(5)
    by (intro speech_run_then_silence [where k = 33]) (simp_all add: recording_session_fields)
  have "\<forall>f \<in> set (map snd sp). int (length f) = 480"
    using assms(4) by simp
  then have "int (length (concat (map snd sp))) = int (length (map snd sp)) * 480"
    by (rule length_concat_uniform)
  then have len: "length (concat (map snd sp)) = 9600"
    using assms(2) by simp
  show ?thesis
    using run len by (simp add: s recording_session_fields)
qed

theorem speech_run_emits_one_segment_witness:
  "start_recording
      (set_vad_callbacks (AudioCapture_init 16000 1 30 2 (1 / 2) 1) (Some Returns) (Some Returns))
      True = Inr (recording_session (1 / 2) 1) \<and>
   fst (stamped (3 / 100) 20 (replicate 40 blank_frame) ! 33) -
     fst (hd (stamped (3 / 100) 0 (replicate 20 blank_frame))) = 159 / 100 \<and>
   emitted (capture_loop (Some Returns) (recording_session (1 / 2) 1)
      (speech_chunks (stamped (3 / 100) 0 (replicate 20 blank_frame)) @
       silence_chunks (stamped (3 / 100) 20 (replicate 40 blank_frame)))) =
     [SpeechStart, Segment (concat (replicate 20 blank_frame)), SpeechEnd] \<and>
   length (concat (replicate 20 blank_frame)) = 9600"
proof -
  have frames: "\<forall>tf \<in> set (stamped (3 / 100) 0 (replicate 20 blank_frame)). length (snd tf) = 480"
  proof
    fix tf assume "tf \<in> set (stamped (3 / 100) 0 (replicate 20 blank_frame))"
    then have "snd tf \<in> set (map snd (stamped (3 / 100) 0 (replicate 20 blank_frame)))"
      unfolding set_map by (rule imageI)
    then show "length (snd tf) = 480"
      by (simp add: blank_frame_def)
  qed
  show ?thesis
    using speech_run_emits_one_segment
      [where session = "recording_session (1 / 2) 1"
        and sp = "stamped (3 / 100) 0 (replicate 20 blank_frame)"
        and si = "stamped (3 / 100) 20 (replicate 40 blank_frame)", OF _ _ _ frames]
    by (simp add: start_recording_session nth_stamped hd_stamped)
qed

text \<open>
  C1. Ten speech frames followed by 40 non-speech frames, read back to back (one pass
  every 30 ms), under the default thresholds: the loop emits one segment, the ten speech
  frames, between a speech-start and a speech-end call. \<open>speech_duration\<close> is the clock at
  the 34th non-speech frame minus the clock at the first speech frame, 1.29 s here: it
  counts the second of silence that ends the run, not only the 300 ms of speech, and is
  compared with \<open>min_speech_duration = 0.5\<close>.
\<close>

theorem short_speech_run_emits_segment:
  "start_recording
      (set_vad_callbacks (AudioCapture_init 16000 1 30 2 (1 / 2) 1) (Some Returns) (Some Returns))
      True = Inr (recording_session (1 / 2) 1) \<and>
   fst (stamped (3 / 100) 10 (replicate 40 g) ! 33) -
     fst (hd (stamped (3 / 100) 0 (replicate 10 f))) = 129 / 100 \<and>
   emitted (capture_loop (Some Returns) (recording_session (1 / 2) 1)
      (speech_chunks (stamped (3 / 100) 0 (replicate 10 f)) @
       silence_chunks (stamped (3 / 100) 10 (replicate 40 g)))) =
     [SpeechStart, Segment (concat (replicate 10 f)), SpeechEnd]"
proof -
  have "emitted (capture_loop (Some Returns) (recording_session (1 / 2) 1)
      (speech_chunks (stamped (3 / 100) 0 (replicate 10 f)) @
       silence_chunks (stamped (3 / 100) 10 (replicate 40 g)))) =
     [SpeechStart, Segment (concat (map snd (stamped (3 / 100) 0 (replicate 10 f)))), SpeechEnd]"
    by (intro speech_run_then_silence [where k = 33])
      (simp_all add: recording_session_fields nth_stamped hd_stamped)
  then show ?thesis
    by (simp add: start_recording_session nth_stamped hd_stamped)
qed

subsection \<open>Unpaired notifications\<close>

lemma speech_frame_no_speech_end:
  "count_list (emitted (speech_frame st now f)) SpeechEnd = count_list (emitted st) SpeechEnd"
  by (simp add: speech_frame_def Let_def)

lemma silence_frame_speech_end:
  assumes "count_list (emitted (silence_frame cb st now)) SpeechEnd \<noteq>
      count_list (emitted st) SpeechEnd"
  shows "is_speech st \<and>
     (\<exists>t0. speech_start_time st = Some t0 \<and> min_speech_duration (self st) \<le> now - t0)"
proof (cases "is_speech st")
  case False
  with assms show ?thesis by (simp add: silence_frame_def)
next
  case True
  show ?thesis
  proof (cases "speech_start_time st")
    case None
    with assms True show ?thesis
      by (simp add: silence_frame_def Let_def split: if_splits)
  next
    case (Some t0)
    show ?thesis
    proof (cases "min_speech_duration (self st) \<le> now - t0")
      case long: True
      with True Some show ?thesis by simp
    next
      case short: False
      with assms True Some show ?thesis
        by (simp add: silence_frame_def Let_def reset_def split: if_splits)
    qed
  qed
qed

lemma capture_iteration_speech_end:
  assumes "count_list (emitted (capture_iteration cb st (now, r))) SpeechEnd \<noteq>
      count_list (emitted st) SpeechEnd"
  shows "is_speech st \<and>
     (\<exists>t0. speech_start_time st = Some t0 \<and> min_speech_duration (self st) \<le> now - t0)"
proof (cases r)
  case (Chunk f v)
  show ?thesis
  proof (cases v)
    case (IsSpeech b)
    let ?st1 = "st\<lparr>self := (self st)\<lparr>recording_buffer := recording_buffer (self st) @ [f]\<rparr>\<rparr>"
    show ?thesis
    proof (cases b)
      case True
      with assms Chunk IsSpeech show ?thesis
        by (simp add: capture_iteration_def speech_frame_no_speech_end split: if_splits)
    next
      case False
      with assms Chunk IsSpeech
      have "count_list (emitted (silence_frame cb ?st1 now)) SpeechEnd \<noteq>
          count_list (emitted ?st1) SpeechEnd"
        by (simp add: capture_iteration_def split: if_splits)
      from silence_frame_speech_end [OF this] show ?thesis by simp
    qed
  next
    case VadRaises
    with assms Chunk show ?thesis
      by (simp add: capture_iteration_def split: if_splits)
  qed
qed (use assms in \<open>simp_all add: capture_iteration_def split: if_splits\<close>)

lemma speech_start_on_transition:
  assumes "stream (self st)" "\<not> is_speech st" "on_speech_start (self st) = Some h"
  shows "emitted (capture_iteration cb st (now, Chunk f (IsSpeech True))) =
     emitted st @ [SpeechStart]"
  using assms by (simp add: capture_iteration_def speech_frame_def Let_def)

text \<open>
  C10. The two notifications are not paired, and a discarded run shows it: with
  \<open>min_speech_duration = 2\<close>, ten speech frames and 40 non-speech frames read back to back
  give one speech-start call and no speech-end call. But the speech-end call is not tied
  to the segment meeting \<open>min_speech_duration\<close>: under the default 0.5 s the same frames
  give a speech-end call for a segment of 4800 samples, 0.3 s at 16 kHz. The test that
  guards the call bounds the clock from the first speech frame through the silence window
  (\<open>capture_iteration_speech_end\<close>), not the length of the segment; it is the test of C1.
\<close>

theorem speech_end_for_short_segment:
  "emitted (capture_loop (Some Returns) (recording_session 2 1)
      (speech_chunks (stamped (3 / 100) 0 (replicate 10 blank_frame)) @
       silence_chunks (stamped (3 / 100) 10 (replicate 40 blank_frame)))) = [SpeechStart] \<and>
   emitted (capture_loop (Some Returns) (recording_session (1 / 2) 1)
      (speech_chunks (stamped (3 / 100) 0 (replicate 10 blank_frame)) @
       silence_chunks (stamped (3 / 100) 10 (replicate 40 blank_frame)))) =
     [SpeechStart, Segment (concat (replicate 10 blank_frame)), SpeechEnd] \<and>
   length (concat (replicate 10 blank_frame)) = 4800 \<and>
   rat_of_nat (length (concat (replicate 10 blank_frame))) /
     rat_of_int (sample_rate (recording_session (1 / 2) 1)) = 3 / 10 \<and>
   3 / 10 < min_speech_duration (recording_session (1 / 2) 1)"
proof -
  let ?run = "speech_chunks (stamped (3 / 100) 0 (replicate 10 blank_frame)) @
      silence_chunks (stamped (3 / 100) 10 (replicate 40 blank_frame))"
  have discarded: "emitted (capture_loop (Some Returns) (recording_session 2 1) ?run) =
      [SpeechStart]"
    by (intro speech_run_discarded [where k = 33])
      (simp_all add: recording_session_fields nth_stamped hd_stamped)
  have "emitted (capture_loop (Some Returns) (recording_session (1 / 2) 1) ?run) =
      [SpeechStart,
       Segment (concat (map snd (stamped (3 / 100) 0 (replicate 10 blank_frame)))), SpeechEnd]"
    by (intro speech_run_then_silence [where k = 33])
      (simp_all add: recording_session_fields nth_stamped hd_stamped)
  then have kept: "emitted (capture_loop (Some Returns) (recording_session (1 / 2) 1) ?run) =
      [SpeechStart, Segment (concat (replicate 10 blank_frame)), SpeechEnd]"
    by simp
  have len: "length (concat (replicate 10 blank_frame)) = 4800"
    using length_concat_uniform [of "replicate 10 blank_frame" 480]
    by (simp add: blank_frame_def)
  show ?thesis
    unfolding discarded kept len by (simp add: recording_session_fields)
qed

end
